theory Spec2Isabelle
  imports Main
begin

section \<open>Data model of the state machine hook (logger.ts, lines 12-47)\<close>

text \<open>
  The objects of a configuration are plain JavaScript objects: each has the own
  properties it was written with and \<open>Object.prototype\<close> as its prototype.
  \<^item> The own properties of \<open>config.states\<close> are a map from state names to state
    definitions, and the own properties of an \<open>on\<close> object are the list of its
    transitions in enumeration order (\<open>Object.keys\<close> enumerates own properties only);
    an absent \<open>on\<close> is \<open>None\<close>.
  \<^item> Reading \<open>o[k]\<close> finds the own property \<open>k\<close> of \<open>o\<close>, or else the property \<open>k\<close>
    of \<open>Object.prototype\<close>, or else is \<open>undefined\<close>.
  \<^item> Reading a property of \<open>undefined\<close> throws a \<open>TypeError\<close>; it is the only
    exception the engine itself can raise. Guards, updaters and effects are supplied by
    the caller and are modelled as total functions.
\<close>

datatype error = TypeError

text \<open>
  The result of reading \<open>o[k]\<close>: the value of an own property, a value inherited from
  \<open>Object.prototype\<close>, or \<open>undefined\<close>. Every inherited value is a function, except
  that of \<open>__proto__\<close>, which is \<open>Object.prototype\<close> itself. All of them are truthy and
  none is a string, and none has a property \<open>on\<close>, \<open>effect\<close>, \<open>target\<close> or \<open>guard\<close>, so
  the code cannot tell one from another.
\<close>

datatype 'a property = Own 'a | Inherited | Missing

text \<open>The names of the properties of \<open>Object.prototype\<close>, as the language defines them.\<close>

definition object_prototype_names :: "string list" where
  "object_prototype_names =
     [''constructor'', ''hasOwnProperty'', ''isPrototypeOf'', ''propertyIsEnumerable'',
      ''toLocaleString'', ''toString'', ''valueOf'', ''__proto__'',
      ''__defineGetter__'', ''__defineSetter__'', ''__lookupGetter__'', ''__lookupSetter__'']"

text \<open>\<open>o[k]\<close> for a plain object with the own properties \<open>own\<close>.\<close>

definition get_property :: "(string \<rightharpoonup> 'a) \<Rightarrow> string \<Rightarrow> 'a property" where
  "get_property own k =
     (case own k of
        Some v \<Rightarrow> Own v
      | None \<Rightarrow> if k \<in> set object_prototype_names then Inherited else Missing)"

text \<open>
  The \<open>value\<close> of a snapshot. It is typed as a state name, but the reducer can store
  \<open>undefined\<close> in it (line 91, after line 82 has read the \<open>target\<close> of an inherited
  function). Used as a property key, \<open>undefined\<close> is the string \<open>undefined\<close>.
\<close>

datatype state_value = Name string | Undefined

definition value_key :: "state_value \<Rightarrow> string" where
  "value_key v = (case v of Name n \<Rightarrow> n | Undefined \<Rightarrow> ''undefined'')"

text \<open>
  \<open>type Transition = string | { target: string; guard?: (state, event) => boolean }\<close>.
  The guard is called with \<open>state.value\<close> as it is at run time.
\<close>

datatype transition =
    Shorthand string
  | Object (target: string) (guard: "(state_value \<Rightarrow> string \<Rightarrow> bool) option")

text \<open>
  The argument an effect or an exit callback is invoked with. The only function the hook
  ever passes is its own \<open>update\<close> closure (line 122).
\<close>

datatype arg = Update

text \<open>
  \<open>MachineStateConfig\<close>: the optional \<open>on\<close> map and the optional entry effect. An
  effect takes the updater and returns either nothing (\<open>None\<close>) or an exit function
  (\<open>Some x\<close>, with \<open>'x\<close> the type of exit functions).
\<close>

record 'x machine_state_config =
  on :: "(string \<times> transition) list option"
  effect :: "(arg \<Rightarrow> 'x option) option"

record 'x machine_config =
  initial :: string
  states :: "string \<rightharpoonup> 'x machine_state_config"

text \<open>The snapshot the reducer works on: \<open>{ value, context, nextEvents }\<close>.\<close>

record 'c machine_state =
  "value" :: state_value
  "context" :: 'c
  nextEvents :: "string list"

text \<open>
  The second argument of the reducer: an event name, or the internal object
  \<open>{ type: __contextKey, updater }\<close> whose tag is a symbol private to the module.
\<close>

datatype 'c message =
    Event string
  | ContextUpdate (updater: "'c \<Rightarrow> 'c")

section \<open>The reducer (lines 51-94)\<close>

text \<open>
  \<open>config.states[v]?.on?.[k]\<close>, the value of \<open>nextState\<close> at line 69. The state
  definition is read through the prototype chain; an inherited function in its place
  has no \<open>on\<close>, and so has a state definition without one. The transition is read
  through the prototype chain of the \<open>on\<close> object in turn.
\<close>

definition configured_transition ::
  "'x machine_config \<Rightarrow> state_value \<Rightarrow> string \<Rightarrow> transition property" where
  "configured_transition config v k =
     (case get_property (states config) (value_key v) of
        Own current_def \<Rightarrow>
          (case on current_def of
             None \<Rightarrow> Missing
           | Some m \<Rightarrow> get_property (map_of m) k)
      | Inherited \<Rightarrow> Missing
      | Missing \<Rightarrow> Missing)"

text \<open>Line 82 for a transition of the configuration: the target it names, in either form.\<close>

definition nextStateValue :: "transition \<Rightarrow> string" where
  "nextStateValue t = (case t of Shorthand n \<Rightarrow> n | Object tg _ \<Rightarrow> tg)"

text \<open>
  \<open>Object.keys(o.on ?? [])\<close>: the keys of \<open>on\<close> in enumeration order, and the keys of
  the empty array, of which there are none, when \<open>on\<close> is absent.
\<close>

definition object_keys :: "(string \<times> 'a) list option \<Rightarrow> string list" where
  "object_keys on_map = (case on_map of None \<Rightarrow> [] | Some m \<Rightarrow> map fst m)"

text \<open>
  The property key that \<open>on?.[event]\<close> is read at. An event name is its own key; the
  context-update object is converted to the string \<open>[object Object]\<close>, as any plain object
  used as a property key is.
\<close>

definition property_key :: "'c message \<Rightarrow> string" where
  "property_key event =
     (case event of Event e \<Rightarrow> e | ContextUpdate _ \<Rightarrow> ''[object Object]'')"

text \<open>\<open>!nextState\<close> is false of a transition of the configuration unless it is the empty string.\<close>

definition truthy :: "transition \<Rightarrow> bool" where
  "truthy t = (case t of Shorthand n \<Rightarrow> n \<noteq> [] | Object _ _ \<Rightarrow> True)"

text \<open>
  The body of \<open>reducer\<close>, statement by statement.
  \<^item> Lines 68-69 use optional chaining and cannot throw.
  \<^item> Line 80 returns early when \<open>nextState\<close> is \<open>undefined\<close> or the empty string; an
    inherited value is truthy and passes.
  \<^item> Line 82 takes the string itself, or the \<open>target\<close> property, which an inherited
    value does not have.
  \<^item> Line 85 calls the guard of an object that has one; an inherited value has none.
  \<^item> Line 92 reads \<open>config.states[nextStateValue]\<close> through the prototype chain and
    then its \<open>on\<close>: it throws when nothing is found, and finds no \<open>on\<close> in an inherited
    function.
\<close>

definition reducer ::
  "'x machine_config \<Rightarrow> 'c machine_state \<Rightarrow> 'c message \<Rightarrow> error + 'c machine_state" where
  "reducer config state event =
     (let currentState = get_property (states config) (value_key (value state));
          nextState =
            (case currentState of
               Own current_def \<Rightarrow>
                 (case on current_def of
                    None \<Rightarrow> Missing
                  | Some m \<Rightarrow> get_property (map_of m) (property_key event))
             | Inherited \<Rightarrow> Missing
             | Missing \<Rightarrow> Missing)
      in case event of
           ContextUpdate upd \<Rightarrow> Inr (state\<lparr>context := upd (context state)\<rparr>)
         | Event e \<Rightarrow>
             if (case nextState of
                   Own t \<Rightarrow> \<not> truthy t
                 | Inherited \<Rightarrow> False
                 | Missing \<Rightarrow> True)
             then Inr state
             else
               let target_value =
                     (case nextState of
                        Own t \<Rightarrow> Name (nextStateValue t)
                      | Inherited \<Rightarrow> Undefined
                      | Missing \<Rightarrow> Undefined)
               in if (case nextState of
                        Own (Shorthand _) \<Rightarrow> False
                      | Own (Object _ None) \<Rightarrow> False
                      | Own (Object _ (Some g)) \<Rightarrow> \<not> g (value state) e
                      | Inherited \<Rightarrow> False
                      | Missing \<Rightarrow> False)
                  then Inr state
                  else
                    (case get_property (states config) (value_key target_value) of
                       Missing \<Rightarrow> Inl TypeError
                     | Inherited \<Rightarrow>
                         Inr (state\<lparr>value := target_value, nextEvents := object_keys (None :: (string \<times> transition) list option)\<rparr>)
                     | Own target_def \<Rightarrow>
                         Inr (state\<lparr>value := target_value,
                                    nextEvents := object_keys (on target_def)\<rparr>)))"

section \<open>The initial snapshot (lines 105-115)\<close>

text \<open>
  The context type of the hook is bounded by \<open>Record<PropertyKey, any>\<close>: a context is a
  map from property names to values, and \<open>{}\<close> is the empty map. The optional argument
  \<open>context\<close> of \<open>useStateMachine\<close> is \<open>None\<close> when it is left out. Line 114 reads
  \<open>config.states[config.initial]\<close> through the prototype chain, as line 92 does.
\<close>

definition initialState ::
  "(string \<rightharpoonup> 'v) option \<Rightarrow> 'x machine_config \<Rightarrow> error + (string \<rightharpoonup> 'v) machine_state" where
  "initialState ctx config =
     (case get_property (states config) (initial config) of
        Missing \<Rightarrow> Inl TypeError
      | Inherited \<Rightarrow>
          Inr \<lparr>value = Name (initial config),
               context = (case ctx of None \<Rightarrow> Map.empty | Some c \<Rightarrow> c),
               nextEvents = object_keys (None :: (string \<times> transition) list option)\<rparr>
      | Own initial_def \<Rightarrow>
          Inr \<lparr>value = Name (initial config),
               context = (case ctx of None \<Rightarrow> Map.empty | Some c \<Rightarrow> c),
               nextEvents = object_keys (on initial_def)\<rparr>)"

section \<open>Dispatching a sequence of messages\<close>

text \<open>
  \<open>useReducer(reducer, initialState)\<close> (line 119) feeds every dispatched message through
  the reducer, each on the snapshot the previous one produced. An exception of the
  reducer ends the run.
\<close>

fun dispatch_all ::
  "'x machine_config \<Rightarrow> 'c machine_state \<Rightarrow> 'c message list \<Rightarrow> error + 'c machine_state" where
  "dispatch_all config state [] = Inr state"
| "dispatch_all config state (m # ms) =
     (case reducer config state m of
        Inl err \<Rightarrow> Inl err
      | Inr state' \<Rightarrow> dispatch_all config state' ms)"

text \<open>
  Every transition of the configuration names a state that is a key of
  \<open>config.states\<close>.
\<close>

definition targets_configured :: "'x machine_config \<Rightarrow> bool" where
  "targets_configured config =
     (\<forall>v k t. configured_transition config v k = Own t
        \<longrightarrow> states config (nextStateValue t) \<noteq> None)"

section \<open>Effects (lines 122-127)\<close>

text \<open>
  What the caller's functions are invoked with is recorded as a list of invocations: the
  entry effect of a state, named by the state value, or an exit function, each with the
  arguments it receives.
\<close>

datatype 'x invocation =
    EffectCall state_value "arg list"
  | ExitCall 'x "arg list"

text \<open>\<open>exit.bind(null, update)\<close>: a function with its leading arguments fixed.\<close>

datatype 'x bound_function = Bind 'x "arg list"

text \<open>
  The callback handed to \<open>useEffect\<close> (lines 125-126). It reads
  \<open>config.states[machine.value]\<close> through the prototype chain, invokes the effect of
  what it finds with \<open>update\<close>, if there is one (an inherited function has none), and
  returns the effect's result bound to \<open>update\<close> when that result is a function. The
  first component is the invocation made, the second the value returned.
\<close>

definition effect_callback ::
  "'x machine_config \<Rightarrow> state_value \<Rightarrow> 'x invocation list \<times> 'x bound_function option" where
  "effect_callback config v =
     (case (case get_property (states config) (value_key v) of
              Own current_def \<Rightarrow> effect current_def
            | Inherited \<Rightarrow> None
            | Missing \<Rightarrow> None) of
        None \<Rightarrow> ([], None)
      | Some eff \<Rightarrow>
          ([EffectCall v [Update]],
           (case eff Update of None \<Rightarrow> None | Some exit \<Rightarrow> Some (Bind exit [Update]))))"

text \<open>
  Modelled from the spec: the scheduling of the callback is done by \<open>useEffect\<close> of the
  host library, which is not part of the source. The model follows section 4.3 of the
  specification (the Effect Scheduler) for the dependency list \<open>[machine.value]\<close> of
  line 127: the hook keeps the dependencies of the last run and the cleanup function
  that run returned; at initialization the callback runs; at every later snapshot the
  dependencies are compared, and only when they differ the kept cleanup, if any, is
  invoked without arguments and then the callback runs again.
\<close>

record 'x effect_hook =
  deps :: "state_value list"
  cleanup :: "'x bound_function option"

text \<open>
  Modelled from the spec: the host invoking a kept cleanup function. It passes no
  arguments, so the exit function receives the arguments it was bound to.
\<close>

definition call_cleanup :: "'x bound_function option \<Rightarrow> 'x invocation list" where
  "call_cleanup c =
     (case c of None \<Rightarrow> [] | Some (Bind exit bound) \<Rightarrow> [ExitCall exit (bound @ [])])"

text \<open>
  Modelled from the spec: \<open>useEffect\<close> at initialization. The callback runs for the
  initial snapshot; its dependencies and the cleanup it returned are kept.
\<close>

definition useEffect_mount ::
  "'x machine_config \<Rightarrow> 'c machine_state \<Rightarrow> 'x invocation list \<times> 'x effect_hook" where
  "useEffect_mount config machine =
     (let (calls, c) = effect_callback config (value machine)
      in (calls, \<lparr>deps = [value machine], cleanup = c\<rparr>))"

text \<open>
  Modelled from the spec: \<open>useEffect\<close> at a later snapshot. With the dependency
  \<open>machine.value\<close> unchanged nothing runs and the hook stays as it is; otherwise the
  kept cleanup is invoked, then the callback, and the new dependencies and cleanup are
  kept.
\<close>

definition useEffect_update ::
  "'x machine_config \<Rightarrow> 'x effect_hook \<Rightarrow> 'c machine_state
     \<Rightarrow> 'x invocation list \<times> 'x effect_hook" where
  "useEffect_update config hook machine =
     (if deps hook = [value machine] then ([], hook)
      else
        let (calls, c) = effect_callback config (value machine)
        in (call_cleanup (cleanup hook) @ calls, \<lparr>deps = [value machine], cleanup = c\<rparr>))"

text \<open>
  Modelled from the spec: the hook over a sequence of snapshots, each replacing the one
  before, with the invocations made along the way.
\<close>

fun useEffect_all ::
  "'x machine_config \<Rightarrow> 'x effect_hook \<Rightarrow> 'c machine_state list
     \<Rightarrow> 'x invocation list \<times> 'x effect_hook" where
  "useEffect_all config hook [] = ([], hook)"
| "useEffect_all config hook (machine # later) =
     (let (calls, hook') = useEffect_update config hook machine;
          (calls', hook'') = useEffect_all config hook' later
      in (calls @ calls', hook''))"

section \<open>Example configurations\<close>

text \<open>
  The toggle of the specification:
  \<open>{initial: 'inactive', states: {inactive: {on: {TOGGLE: 'active'}},
     active: {on: {TOGGLE: 'inactive'}}}}\<close>.
\<close>

definition toggle_config :: "unit machine_config" where
  "toggle_config =
     \<lparr>initial = ''inactive'',
      states =
        [''inactive'' \<mapsto> \<lparr>on = Some [(''TOGGLE'', Shorthand ''active'')], effect = None\<rparr>,
         ''active'' \<mapsto> \<lparr>on = Some [(''TOGGLE'', Shorthand ''inactive'')], effect = None\<rparr>]\<rparr>"

text \<open>
  A single state \<open>inactive\<close> whose event \<open>TOGGLE\<close> is in object form with the given guard
  and the given target; no other state is configured.
\<close>

definition lone_config ::
  "string \<Rightarrow> (state_value \<Rightarrow> string \<Rightarrow> bool) option \<Rightarrow> unit machine_config" where
  "lone_config tg g =
     \<lparr>initial = ''inactive'',
      states =
        [''inactive'' \<mapsto> \<lparr>on = Some [(''TOGGLE'', Object tg g)], effect = None\<rparr>]\<rparr>"

text \<open>The same with the target \<open>active\<close>, a state that is not configured.\<close>

definition dangling_config ::
  "(state_value \<Rightarrow> string \<Rightarrow> bool) option \<Rightarrow> unit machine_config" where
  "dangling_config g = lone_config ''active'' g"

text \<open>
  A state \<open>inactive\<close> whose event \<open>TOGGLE\<close> is the shorthand for the state named by the
  empty string, which is configured and has no \<open>on\<close> map.
\<close>

definition empty_name_config :: "unit machine_config" where
  "empty_name_config =
     \<lparr>initial = ''inactive'',
      states =
        [''inactive'' \<mapsto> \<lparr>on = Some [(''TOGGLE'', Shorthand [])], effect = None\<rparr>,
         [] \<mapsto> \<lparr>on = None, effect = None\<rparr>]\<rparr>"

definition inactive_state :: "unit machine_state" where
  "inactive_state = \<lparr>value = Name ''inactive'', context = (), nextEvents = [''TOGGLE'']\<rparr>"

text \<open>
  The toggle with a guard on the way from \<open>inactive\<close> to \<open>active\<close>, as in the guard
  scenario of the specification: \<open>TOGGLE: {target: 'active', guard: g}\<close>.
\<close>

definition guarded_config :: "(state_value \<Rightarrow> string \<Rightarrow> bool) \<Rightarrow> unit machine_config" where
  "guarded_config g =
     \<lparr>initial = ''inactive'',
      states =
        [''inactive'' \<mapsto>
           \<lparr>on = Some [(''TOGGLE'', Object ''active'' (Some g))], effect = None\<rparr>,
         ''active'' \<mapsto>
           \<lparr>on = Some [(''TOGGLE'', Shorthand ''inactive'')], effect = None\<rparr>]\<rparr>"

text \<open>A configuration with the given initial state name and the one state \<open>inactive\<close>.\<close>

definition initial_config :: "string \<Rightarrow> unit machine_config" where
  "initial_config i =
     \<lparr>initial = i,
      states =
        [''inactive'' \<mapsto>
           \<lparr>on = Some [(''TOGGLE'', Shorthand ''inactive'')], effect = None\<rparr>]\<rparr>"

text \<open>
  Two states whose events differ; the event of the second is named \<open>toString\<close>:
  \<open>{initial: 'inactive', states: {inactive: {on: {TOGGLE: 'active'}},
     active: {on: {toString: 'inactive'}}}}\<close>.
\<close>

definition toString_config :: "unit machine_config" where
  "toString_config =
     \<lparr>initial = ''inactive'',
      states =
        [''inactive'' \<mapsto> \<lparr>on = Some [(''TOGGLE'', Shorthand ''active'')], effect = None\<rparr>,
         ''active'' \<mapsto> \<lparr>on = Some [(''toString'', Shorthand ''inactive'')], effect = None\<rparr>]\<rparr>"

text \<open>
  Three states with different events:
  \<open>{initial: 'idle', states: {idle: {on: {START: 'running'}},
     running: {on: {PAUSE: 'idle', STOP: 'done'}}, done: {}}}\<close>.
\<close>

definition player_config :: "unit machine_config" where
  "player_config =
     \<lparr>initial = ''idle'',
      states =
        [''idle'' \<mapsto> \<lparr>on = Some [(''START'', Shorthand ''running'')], effect = None\<rparr>,
         ''running'' \<mapsto>
           \<lparr>on = Some [(''PAUSE'', Shorthand ''idle''), (''STOP'', Shorthand ''done'')],
            effect = None\<rparr>,
         ''done'' \<mapsto> \<lparr>on = None, effect = None\<rparr>]\<rparr>"

text \<open>
  Two states \<open>A\<close> and \<open>B\<close>, each with an entry effect that returns an exit function;
  exit functions are named by strings.
\<close>

definition effect_config :: "string machine_config" where
  "effect_config =
     \<lparr>initial = ''A'',
      states =
        [''A'' \<mapsto>
           \<lparr>on = Some [(''GO'', Shorthand ''B'')], effect = Some (\<lambda>u. Some ''exit A'')\<rparr>,
         ''B'' \<mapsto>
           \<lparr>on = Some [(''GO'', Shorthand ''A'')], effect = Some (\<lambda>u. Some ''exit B'')\<rparr>]\<rparr>"

definition snapshot :: "string \<Rightarrow> nat \<Rightarrow> nat machine_state" where
  "snapshot v c = \<lparr>value = Name v, context = c, nextEvents = [''GO'']\<rparr>"

section \<open>Property lookup\<close>

lemma get_property_Some [simp]:
  "own k = Some v \<Longrightarrow> get_property own k = Own v"
  by (simp add: get_property_def)

lemma get_property_eq_Own:
  "get_property own k = Own v \<longleftrightarrow> own k = Some v"
  by (simp add: get_property_def split: option.splits)

lemma get_property_undefined:
  "get_property own ''undefined''
     = (case own ''undefined'' of None \<Rightarrow> Missing | Some v \<Rightarrow> Own v)"
  by (simp add: get_property_def object_prototype_names_def split: option.splits)

lemma get_property_None:
  "own k = None
   \<Longrightarrow> get_property own k = (if k \<in> set object_prototype_names then Inherited else Missing)"
  by (simp add: get_property_def)

lemma object_keys_simps [simp]:
  "object_keys None = []" "object_keys (Some m) = map fst m"
  by (simp_all add: object_keys_def)

lemma set_object_keys:
  "set (object_keys om) = (case om of None \<Rightarrow> {} | Some m \<Rightarrow> dom (map_of m))"
  by (simp add: dom_map_of_conv_image_fst split: option.splits)

section \<open>The reducer, case by case\<close>

lemma reducer_Event:
  "reducer config state (Event e)
     = (case configured_transition config (value state) e of
          Missing \<Rightarrow> Inr state
        | Inherited \<Rightarrow>
            (case get_property (states config) ''undefined'' of
               Missing \<Rightarrow> Inl TypeError
             | Inherited \<Rightarrow> Inr (state\<lparr>value := Undefined, nextEvents := []\<rparr>)
             | Own target_def \<Rightarrow>
                 Inr (state\<lparr>value := Undefined,
                            nextEvents := object_keys (on target_def)\<rparr>))
        | Own t \<Rightarrow>
            if \<not> truthy t \<or> (\<exists>tg g. t = Object tg (Some g) \<and> \<not> g (value state) e)
            then Inr state
            else
              (case get_property (states config) (nextStateValue t) of
                 Missing \<Rightarrow> Inl TypeError
               | Inherited \<Rightarrow>
                   Inr (state\<lparr>value := Name (nextStateValue t), nextEvents := []\<rparr>)
               | Own target_def \<Rightarrow>
                   Inr (state\<lparr>value := Name (nextStateValue t),
                              nextEvents := object_keys (on target_def)\<rparr>)))"
proof (cases "get_property (states config) (value_key (value state))")
  case Missing
  then show ?thesis
    by (simp add: reducer_def configured_transition_def Let_def)
next
  case Inherited
  then show ?thesis
    by (simp add: reducer_def configured_transition_def Let_def)
next
  case (Own current_def)
  show ?thesis
  proof (cases "on current_def")
    case None
    with Own show ?thesis
      by (simp add: reducer_def configured_transition_def Let_def)
  next
    case (Some m)
    show ?thesis
    proof (cases "get_property (map_of m) e")
      case Missing
      with Own Some show ?thesis
        by (simp add: reducer_def configured_transition_def property_key_def Let_def)
    next
      case Inherited
      with Own Some show ?thesis
        by (simp add: reducer_def configured_transition_def property_key_def
              value_key_def Let_def split: property.splits)
    next
      case transition: (Own t)
      with Own Some show ?thesis
        by (cases t)
           (auto simp: reducer_def configured_transition_def property_key_def
                       value_key_def Let_def
                 split: option.splits property.splits)
    qed
  qed
qed

lemma reducer_absent:
  "configured_transition config (value state) e = Missing
   \<Longrightarrow> reducer config state (Event e) = Inr state"
  by (simp add: reducer_Event)

lemma reducer_falsy:
  "configured_transition config (value state) e = Own (Shorthand [])
   \<Longrightarrow> reducer config state (Event e) = Inr state"
  by (simp add: reducer_Event truthy_def)

lemma reducer_guarded:
  "configured_transition config (value state) e = Own (Object tg (Some g))
   \<Longrightarrow> reducer config state (Event e)
       = (if g (value state) e
          then (case get_property (states config) tg of
                  Missing \<Rightarrow> Inl TypeError
                | Inherited \<Rightarrow>
                    Inr \<lparr>value = Name tg, context = context state, nextEvents = []\<rparr>
                | Own target_def \<Rightarrow>
                    Inr \<lparr>value = Name tg, context = context state,
                         nextEvents = object_keys (on target_def)\<rparr>)
          else Inr state)"
  by (simp add: reducer_Event truthy_def nextStateValue_def split: property.splits)

lemma reducer_fires:
  "configured_transition config (value state) e = Own t
   \<Longrightarrow> t \<noteq> Shorthand []
   \<Longrightarrow> (\<And>tg g. t = Object tg (Some g) \<Longrightarrow> g (value state) e)
   \<Longrightarrow> reducer config state (Event e)
       = (case get_property (states config) (nextStateValue t) of
            Missing \<Rightarrow> Inl TypeError
          | Inherited \<Rightarrow>
              Inr \<lparr>value = Name (nextStateValue t), context = context state,
                   nextEvents = []\<rparr>
          | Own target_def \<Rightarrow>
              Inr \<lparr>value = Name (nextStateValue t), context = context state,
                   nextEvents = object_keys (on target_def)\<rparr>)"
  by (cases t) (auto simp: reducer_Event truthy_def split: property.splits)

lemma reducer_inherited:
  "configured_transition config (value state) e = Inherited
   \<Longrightarrow> reducer config state (Event e)
       = (case states config ''undefined'' of
            None \<Rightarrow> Inl TypeError
          | Some target_def \<Rightarrow>
              Inr \<lparr>value = Undefined, context = context state,
                   nextEvents = object_keys (on target_def)\<rparr>)"
  by (simp add: reducer_Event get_property_undefined split: option.splits)

section \<open>Firing a transition\<close>

text \<open>
  C1, as amended. When the transition configured for the event in the current state is
  present, is not the shorthand for the empty state name, names a target that is a key
  of \<open>config.states\<close>, and has no guard or a guard that returns true, the reducer
  returns a snapshot whose value is the target (the bare name, or the \<open>target\<close> field),
  whose context is the input's, and whose \<open>nextEvents\<close> is exactly the key set of the
  target's \<open>on\<close> map, empty when the target has none.
\<close>

theorem reducer_transition:
  assumes present: "configured_transition config (value state) e = Own t"
      and nonempty: "t \<noteq> Shorthand []"
      and target: "states config (nextStateValue t) = Some target_def"
      and allowed: "\<forall>tg g. t = Object tg (Some g) \<longrightarrow> g (value state) e"
  shows "\<exists>state'. reducer config state (Event e) = Inr state'
           \<and> value state' = Name (case t of Shorthand n \<Rightarrow> n | Object tg g \<Rightarrow> tg)
           \<and> context state' = context state
           \<and> set (nextEvents state')
               = (case on target_def of None \<Rightarrow> {} | Some m \<Rightarrow> dom (map_of m))"
proof -
  have guard_ok: "g (value state) e" if "t = Object tg (Some g)" for tg g
    using allowed that by blast
  have "reducer config state (Event e)
          = (case get_property (states config) (nextStateValue t) of
               Missing \<Rightarrow> Inl TypeError
             | Inherited \<Rightarrow>
                 Inr \<lparr>value = Name (nextStateValue t), context = context state,
                      nextEvents = []\<rparr>
             | Own target_def \<Rightarrow>
                 Inr \<lparr>value = Name (nextStateValue t), context = context state,
                      nextEvents = object_keys (on target_def)\<rparr>)"
    using present nonempty guard_ok by (rule reducer_fires)
  with target show ?thesis
    by (simp add: set_object_keys nextStateValue_def)
qed

text \<open>
  The guarded toggle with a guard that holds of \<open>(inactive, TOGGLE)\<close> only: the event
  takes \<open>inactive\<close> to \<open>active\<close>.
\<close>

theorem reducer_transition_witness:
  "configured_transition
       (guarded_config (\<lambda>v e. v = Name ''inactive'' \<and> e = ''TOGGLE''))
       (value inactive_state) ''TOGGLE''
     = Own (Object ''active'' (Some (\<lambda>v e. v = Name ''inactive'' \<and> e = ''TOGGLE'')))
   \<and> (\<exists>state'. reducer (guarded_config (\<lambda>v e. v = Name ''inactive'' \<and> e = ''TOGGLE''))
                   inactive_state (Event ''TOGGLE'') = Inr state'
          \<and> value state' = Name ''active''
          \<and> context state' = ()
          \<and> set (nextEvents state') = {''TOGGLE''})"
proof -
  let ?g = "\<lambda>v e. v = Name ''inactive'' \<and> e = ''TOGGLE''"
  have present: "configured_transition (guarded_config ?g) (value inactive_state) ''TOGGLE''
                   = Own (Object ''active'' (Some ?g))"
    by (simp add: configured_transition_def guarded_config_def inactive_state_def
          value_key_def)
  have target: "states (guarded_config ?g) (nextStateValue (Object ''active'' (Some ?g)))
                  = Some \<lparr>on = Some [(''TOGGLE'', Shorthand ''inactive'')], effect = None\<rparr>"
    by (simp add: guarded_config_def nextStateValue_def)
  have allowed: "\<forall>tg g. Object ''active'' (Some ?g) = Object tg (Some g)
                   \<longrightarrow> g (value inactive_state) ''TOGGLE''"
    by (simp add: inactive_state_def)
  show ?thesis
    using present reducer_transition [OF present _ target allowed]
    by (simp add: inactive_state_def)
qed

text \<open>
  C1 as stated fails in two ways. A present, unguarded transition to a state that is not
  configured makes the reducer throw; a present shorthand for the empty state name
  leaves the snapshot where it was, although that state is configured.
\<close>

theorem reducer_transition_counterexample:
  "configured_transition (dangling_config None) (value inactive_state) ''TOGGLE''
     = Own (Object ''active'' None)
   \<and> reducer (dangling_config None) inactive_state (Event ''TOGGLE'') = Inl TypeError
   \<and> configured_transition empty_name_config (value inactive_state) ''TOGGLE''
     = Own (Shorthand [])
   \<and> reducer empty_name_config inactive_state (Event ''TOGGLE'') = Inr inactive_state
   \<and> value inactive_state \<noteq> Name []"
proof -
  have dangling:
    "configured_transition (dangling_config None) (value inactive_state) ''TOGGLE''
       = Own (Object ''active'' None)"
    by (simp add: configured_transition_def dangling_config_def lone_config_def
          inactive_state_def value_key_def)
  have "get_property (states (dangling_config None)) ''active'' = Missing"
    by (simp add: get_property_def dangling_config_def lone_config_def
          object_prototype_names_def)
  then have throws:
    "reducer (dangling_config None) inactive_state (Event ''TOGGLE'') = Inl TypeError"
    using reducer_fires [OF dangling] by (simp add: nextStateValue_def)
  have empty:
    "configured_transition empty_name_config (value inactive_state) ''TOGGLE''
       = Own (Shorthand [])"
    by (simp add: configured_transition_def empty_name_config_def inactive_state_def
          value_key_def)
  from dangling throws empty reducer_falsy [OF empty] show ?thesis
    by (simp add: inactive_state_def)
qed

section \<open>The invariant of \<open>nextEvents\<close>\<close>

lemma reducer_keeps_next_events:
  assumes inv: "case get_property (states config) (value_key (value s)) of
                  Own sd \<Rightarrow> nextEvents s = object_keys (on sd)
                | Inherited \<Rightarrow> nextEvents s = []
                | Missing \<Rightarrow> False"
      and step: "reducer config s m = Inr s'"
  shows "case get_property (states config) (value_key (value s')) of
           Own sd \<Rightarrow> nextEvents s' = object_keys (on sd)
         | Inherited \<Rightarrow> nextEvents s' = []
         | Missing \<Rightarrow> False"
proof (cases m)
  case (ContextUpdate upd)
  with step have "s' = s\<lparr>context := upd (context s)\<rparr>"
    by (simp add: reducer_def Let_def)
  with inv show ?thesis by (simp split: property.splits)
next
  case (Event e)
  show ?thesis
  proof (cases "s' = s")
    case True
    show ?thesis unfolding True by (rule inv)
  next
    case False
    with step Event show ?thesis
      by (auto simp: reducer_Event value_key_def split: property.splits if_splits)
  qed
qed

lemma dispatch_all_keeps_next_events:
  "(case get_property (states config) (value_key (value s)) of
      Own sd \<Rightarrow> nextEvents s = object_keys (on sd)
    | Inherited \<Rightarrow> nextEvents s = []
    | Missing \<Rightarrow> False)
   \<Longrightarrow> dispatch_all config s ms = Inr s'
   \<Longrightarrow> (case get_property (states config) (value_key (value s')) of
         Own sd \<Rightarrow> nextEvents s' = object_keys (on sd)
       | Inherited \<Rightarrow> nextEvents s' = []
       | Missing \<Rightarrow> False)"
proof (induction ms arbitrary: s)
  case Nil
  from Nil.prems(2) have same: "s' = s" by simp
  show ?case unfolding same by (rule Nil.prems(1))
next
  case (Cons m ms)
  from Cons.prems(2) obtain s1 where step: "reducer config s m = Inr s1"
    and rest: "dispatch_all config s1 ms = Inr s'"
    by (auto split: sum.splits)
  from reducer_keeps_next_events [OF Cons.prems(1) step] rest
  show ?case by (rule Cons.IH)
qed

lemma initialState_next_events:
  "initialState ctx config = Inr s0
   \<Longrightarrow> (case get_property (states config) (value_key (value s0)) of
         Own sd \<Rightarrow> nextEvents s0 = object_keys (on sd)
       | Inherited \<Rightarrow> nextEvents s0 = []
       | Missing \<Rightarrow> False)"
  by (auto simp: initialState_def value_key_def split: property.splits)

lemma reducer_total:
  assumes wf: "targets_configured config"
      and own: "configured_transition config (value s) (property_key m) \<noteq> Inherited"
  shows "\<exists>s'. reducer config s m = Inr s'"
proof (cases m)
  case (ContextUpdate upd)
  then show ?thesis by (simp add: reducer_def Let_def)
next
  case (Event e)
  show ?thesis
  proof (cases "configured_transition config (value s) e")
    case Missing
    then show ?thesis using Event by (simp add: reducer_absent)
  next
    case Inherited
    with own Event show ?thesis by (simp add: property_key_def)
  next
    case (Own t)
    with wf have "states config (nextStateValue t) \<noteq> None"
      unfolding targets_configured_def by blast
    then obtain td where "states config (nextStateValue t) = Some td"
      by blast
    with Own Event show ?thesis
      by (simp add: reducer_Event)
  qed
qed

text \<open>
  C2. Every snapshot reached from the initial snapshot by any sequence of messages has as
  \<open>nextEvents\<close> exactly the key set of \<open>config.states[value].on\<close>: the keys of the
  \<open>on\<close> map of the state definition found there, and the empty set when what is found
  has no \<open>on\<close> map (a state definition without one, or a function inherited from
  \<open>Object.prototype\<close>); something is always found. A context-only update leaves
  \<open>value\<close> and \<open>nextEvents\<close> untouched. When every transition target is a key of
  \<open>config.states\<close>, the reducer returns a snapshot for every message, unless the
  message is an event that is not a key of the current \<open>on\<close> map and names a property
  of \<open>Object.prototype\<close>.
\<close>

theorem next_events_invariant:
  assumes init: "initialState ctx config = Inr s0"
      and run: "dispatch_all config s0 ms = Inr s"
  shows "(case get_property (states config) (value_key (value s)) of
            Own sd \<Rightarrow>
              set (nextEvents s) = (case on sd of None \<Rightarrow> {} | Some m \<Rightarrow> dom (map_of m))
          | Inherited \<Rightarrow> set (nextEvents s) = {}
          | Missing \<Rightarrow> False)
       \<and> (\<exists>s'. reducer config s (ContextUpdate upd) = Inr s'
            \<and> value s' = value s \<and> nextEvents s' = nextEvents s)
       \<and> (targets_configured config
            \<longrightarrow> configured_transition config (value s) (property_key m) \<noteq> Inherited
            \<longrightarrow> (\<exists>s'. reducer config s m = Inr s'))"
proof -
  from initialState_next_events [OF init] run
  have "case get_property (states config) (value_key (value s)) of
          Own sd \<Rightarrow> nextEvents s = object_keys (on sd)
        | Inherited \<Rightarrow> nextEvents s = []
        | Missing \<Rightarrow> False"
    by (rule dispatch_all_keeps_next_events)
  then have "case get_property (states config) (value_key (value s)) of
          Own sd \<Rightarrow>
            set (nextEvents s) = (case on sd of None \<Rightarrow> {} | Some m \<Rightarrow> dom (map_of m))
        | Inherited \<Rightarrow> set (nextEvents s) = {}
        | Missing \<Rightarrow> False"
    by (simp add: set_object_keys split: property.splits)
  moreover have "\<exists>s'. reducer config s (ContextUpdate upd) = Inr s'
      \<and> value s' = value s \<and> nextEvents s' = nextEvents s"
    by (simp add: reducer_def Let_def)
  moreover have "targets_configured config
      \<longrightarrow> configured_transition config (value s) (property_key m) \<noteq> Inherited
      \<longrightarrow> (\<exists>s'. reducer config s m = Inr s')"
    by (simp add: reducer_total)
  ultimately show ?thesis by blast
qed

lemma player_config_states [simp]:
  "states player_config ''idle''
     = Some \<lparr>on = Some [(''START'', Shorthand ''running'')], effect = None\<rparr>"
  "states player_config ''running''
     = Some \<lparr>on = Some [(''PAUSE'', Shorthand ''idle''), (''STOP'', Shorthand ''done'')],
             effect = None\<rparr>"
  "states player_config ''done'' = Some \<lparr>on = None, effect = None\<rparr>"
  by (simp_all add: player_config_def)

lemma player_config_targets: "targets_configured player_config"
proof -
  have "states player_config (nextStateValue t) \<noteq> None"
    if "configured_transition player_config v k = Own t" for v k t
  proof -
    from that obtain d m where d: "states player_config (value_key v) = Some d"
      and m: "on d = Some m" and t: "map_of m k = Some t"
      by (auto simp: configured_transition_def get_property_eq_Own
            split: property.splits option.splits)
    from d have "value_key v = ''idle'' \<or> value_key v = ''running'' \<or> value_key v = ''done''"
      by (auto simp: player_config_def split: if_splits)
    with d m t have "nextStateValue t \<in> {''idle'', ''running'', ''done''}"
      by (auto simp: nextStateValue_def split: if_splits)
    then show ?thesis by auto
  qed
  then show ?thesis
    unfolding targets_configured_def by blast
qed

text \<open>
  The three states of the player have different events. Started without a context, the
  snapshot is in \<open>idle\<close> with \<open>[START]\<close>; after \<open>START\<close> and a context update it is in
  \<open>running\<close> with \<open>[PAUSE, STOP]\<close>; after \<open>STOP\<close> it is in \<open>done\<close>, which has no
  \<open>on\<close> map, with no events.
\<close>

theorem next_events_invariant_witness:
  "initialState None player_config
     = Inr \<lparr>value = Name ''idle'', context = (Map.empty :: string \<rightharpoonup> int),
            nextEvents = [''START'']\<rparr>
   \<and> dispatch_all player_config
        \<lparr>value = Name ''idle'', context = (Map.empty :: string \<rightharpoonup> int),
         nextEvents = [''START'']\<rparr>
        [Event ''START'', ContextUpdate (\<lambda>c. c(''count'' \<mapsto> 1))]
     = Inr \<lparr>value = Name ''running'', context = [''count'' \<mapsto> 1],
            nextEvents = [''PAUSE'', ''STOP'']\<rparr>
   \<and> dispatch_all player_config
        \<lparr>value = Name ''idle'', context = (Map.empty :: string \<rightharpoonup> int),
         nextEvents = [''START'']\<rparr>
        [Event ''START'', ContextUpdate (\<lambda>c. c(''count'' \<mapsto> 1)), Event ''STOP'']
     = Inr \<lparr>value = Name ''done'', context = [''count'' \<mapsto> 1], nextEvents = []\<rparr>
   \<and> targets_configured player_config
   \<and> set [''PAUSE'', ''STOP''] = dom (map_of [(''PAUSE'', Shorthand ''idle''),
                                               (''STOP'', Shorthand ''done'')])
   \<and> (\<exists>s'. reducer player_config
               \<lparr>value = Name ''running'', context = [''count'' \<mapsto> (1::int)],
                nextEvents = [''PAUSE'', ''STOP'']\<rparr>
               (Event ''PAUSE'') = Inr s')"
proof -
  let ?start = "\<lparr>value = Name ''idle'', context = (Map.empty :: string \<rightharpoonup> int),
                 nextEvents = [''START'']\<rparr>"
  let ?running = "\<lparr>value = Name ''running'', context = [''count'' \<mapsto> (1::int)],
                   nextEvents = [''PAUSE'', ''STOP'']\<rparr>"
  let ?done = "\<lparr>value = Name ''done'', context = [''count'' \<mapsto> (1::int)],
                nextEvents = []\<rparr>"
  have init: "initialState None player_config = Inr ?start"
    by (simp add: initialState_def player_config_def)
  let ?started = "\<lparr>value = Name ''running'', context = (Map.empty :: string \<rightharpoonup> int),
                   nextEvents = [''PAUSE'', ''STOP'']\<rparr>"
  have start: "reducer player_config ?start (Event ''START'') = Inr ?started"
    by (simp add: reducer_Event configured_transition_def value_key_def truthy_def
          nextStateValue_def)
  have stop: "reducer player_config ?running (Event ''STOP'') = Inr ?done"
    by (simp add: reducer_Event configured_transition_def value_key_def truthy_def
          nextStateValue_def)
  have count: "reducer player_config ?started
                 (ContextUpdate (\<lambda>c. c(''count'' \<mapsto> 1))) = Inr ?running"
    by (simp add: reducer_def Let_def)
  have run: "dispatch_all player_config ?start
               [Event ''START'', ContextUpdate (\<lambda>c. c(''count'' \<mapsto> 1))] = Inr ?running"
    by (simp add: start count)
  have run': "dispatch_all player_config ?start
               [Event ''START'', ContextUpdate (\<lambda>c. c(''count'' \<mapsto> 1)), Event ''STOP'']
                 = Inr ?done"
    by (simp add: start count stop)
  have wf: "targets_configured player_config"
    by (rule player_config_targets)
  have own: "configured_transition player_config (value ?running)
               (property_key (Event ''PAUSE'' :: (string \<rightharpoonup> int) message))
             = Own (Shorthand ''idle'')"
    by (simp add: configured_transition_def value_key_def property_key_def)
  from init run run' wf own
    next_events_invariant [OF init run, of "\<lambda>c. c" "Event ''PAUSE''"]
    next_events_invariant [OF init run', of "\<lambda>c. c" "Event ''PAUSE''"]
  show ?thesis
    by (simp add: value_key_def)
qed

section \<open>Context updates\<close>

text \<open>
  C3. A context-update message replaces the context by the updater applied to the old
  context and leaves \<open>value\<close> and \<open>nextEvents\<close> as they were, and the outcome does not
  depend on the configuration: any two configurations give the same result.
\<close>

theorem reducer_context_update:
  "reducer config state (ContextUpdate upd)
     = Inr \<lparr>value = value state, context = upd (context state),
            nextEvents = nextEvents state\<rparr>
   \<and> reducer config state (ContextUpdate upd) = reducer config' state (ContextUpdate upd)"
  by (simp add: reducer_def Let_def)

section \<open>Guards\<close>

text \<open>
  C4. When the transition configured for event \<open>e\<close> in the current state is in object
  form with a guard \<open>g\<close>, the outcome of the reducer depends on the guard through
  \<open>g (value state) e\<close> alone, the guard applied to the current state value and the event
  name: when that is false the reducer returns the state as it was, and when it is true
  the reducer goes on to the lookup of the target, which gives the target's events, no
  events for a name inherited from \<open>Object.prototype\<close>, and throws for any other name
  that is not a key of \<open>config.states\<close>.
\<close>

theorem reducer_guard_arguments:
  assumes "configured_transition config (value state) e = Own (Object tg (Some g))"
  shows "reducer config state (Event e)
           = (if g (value state) e
              then (case get_property (states config) tg of
                      Missing \<Rightarrow> Inl TypeError
                    | Inherited \<Rightarrow>
                        Inr \<lparr>value = Name tg, context = context state, nextEvents = []\<rparr>
                    | Own target_def \<Rightarrow>
                        Inr \<lparr>value = Name tg, context = context state,
                             nextEvents = object_keys (on target_def)\<rparr>)
              else Inr state)"
  using assms by (rule reducer_guarded)

text \<open>
  Two guards on the toggle tell the argument order apart: the one that asks for the
  state value \<open>active\<close> denies \<open>TOGGLE\<close> in \<open>inactive\<close>, the one that asks for
  \<open>inactive\<close> lets it through.
\<close>

theorem reducer_guard_arguments_witness:
  "configured_transition (guarded_config (\<lambda>v e. v = Name ''active'' \<and> e = ''TOGGLE''))
       (value inactive_state) ''TOGGLE''
     = Own (Object ''active'' (Some (\<lambda>v e. v = Name ''active'' \<and> e = ''TOGGLE'')))
   \<and> reducer (guarded_config (\<lambda>v e. v = Name ''active'' \<and> e = ''TOGGLE''))
        inactive_state (Event ''TOGGLE'') = Inr inactive_state
   \<and> reducer (guarded_config (\<lambda>v e. v = Name ''inactive'' \<and> e = ''TOGGLE''))
        inactive_state (Event ''TOGGLE'')
      = Inr \<lparr>value = Name ''active'', context = (), nextEvents = [''TOGGLE'']\<rparr>"
proof -
  have present:
    "configured_transition (guarded_config g) (value inactive_state) ''TOGGLE''
       = Own (Object ''active'' (Some g))" for g
    by (simp add: configured_transition_def guarded_config_def inactive_state_def
          value_key_def)
  have target: "get_property (states (guarded_config g)) ''active''
      = Own \<lparr>on = Some [(''TOGGLE'', Shorthand ''inactive'')], effect = None\<rparr>" for g
    by (simp add: guarded_config_def)
  show ?thesis
    using present reducer_guard_arguments [OF present]
    by (simp add: target inactive_state_def)
qed

section \<open>Events without a transition\<close>

text \<open>
  What holds of events without a transition: when the lookup of line 69 finds nothing,
  the reducer returns the snapshot as it is, however often the event is dispatched.
\<close>

lemma dispatch_all_absent:
  assumes "configured_transition config (value state) e = Missing"
  shows "dispatch_all config state (replicate n (Event e)) = Inr state"
  by (induction n) (simp_all add: reducer_absent [OF assms])

text \<open>
  C5. An event that has no transition in the current state is to leave the snapshot as
  it is, without an exception. The code does not do so for an event that names a
  property of \<open>Object.prototype\<close>: in the state \<open>inactive\<close>, whose only event is
  \<open>TOGGLE\<close>, the event \<open>toString\<close> (an event of the state \<open>active\<close>) has no
  transition, yet line 69 finds the inherited function, line 80 does not return, and
  line 92 throws.
\<close>

theorem reducer_unrecognized_event_throws:
  "states toString_config ''inactive''
     = Some \<lparr>on = Some [(''TOGGLE'', Shorthand ''active'')], effect = None\<rparr>
   \<and> map_of [(''TOGGLE'', Shorthand ''active'')] ''toString'' = None
   \<and> configured_transition toString_config (value inactive_state) ''toString'' = Inherited
   \<and> reducer toString_config inactive_state (Event ''toString'') = Inl TypeError"
proof -
  have found:
    "configured_transition toString_config (value inactive_state) ''toString'' = Inherited"
    by (simp add: configured_transition_def toString_config_def inactive_state_def
          value_key_def get_property_def object_prototype_names_def)
  have "states toString_config ''undefined'' = None"
    by (simp add: toString_config_def)
  with found reducer_inherited [OF found] show ?thesis
    by (simp add: toString_config_def)
qed

section \<open>Guard denial and the target lookup\<close>

text \<open>
  C6. When the transition configured for the event is in object form with a guard, a
  guard that returns false makes the reducer return the state unchanged whatever
  \<open>config.states\<close> holds for the target. In particular, when the target is not a key of
  \<open>config.states\<close>, the denied event does not fail, while with a guard that returns true
  the same transition reaches the lookup of the missing target: it throws, unless the
  target names a property of \<open>Object.prototype\<close>, which the lookup finds.
\<close>

theorem reducer_denied_before_target_lookup:
  assumes "configured_transition config (value state) e = Own (Object tg (Some g))"
  shows "(\<not> g (value state) e \<longrightarrow> reducer config state (Event e) = Inr state)
       \<and> (g (value state) e \<longrightarrow> states config tg = None \<longrightarrow>
            reducer config state (Event e)
              = (if tg \<in> set object_prototype_names
                 then Inr \<lparr>value = Name tg, context = context state, nextEvents = []\<rparr>
                 else Inl TypeError))"
  using assms by (simp add: reducer_guarded get_property_None)

theorem reducer_denied_before_target_lookup_witness:
  "configured_transition (dangling_config (Some (\<lambda>v e. False)))
       (value inactive_state) ''TOGGLE''
      = Own (Object ''active'' (Some (\<lambda>v e. False)))
   \<and> states (dangling_config (Some (\<lambda>v e. False))) ''active'' = None
   \<and> reducer (dangling_config (Some (\<lambda>v e. False))) inactive_state (Event ''TOGGLE'')
      = Inr inactive_state
   \<and> reducer (dangling_config (Some (\<lambda>v e. True))) inactive_state (Event ''TOGGLE'')
      = Inl TypeError
   \<and> reducer (lone_config ''valueOf'' (Some (\<lambda>v e. False))) inactive_state (Event ''TOGGLE'')
      = Inr inactive_state
   \<and> reducer (lone_config ''valueOf'' (Some (\<lambda>v e. True))) inactive_state (Event ''TOGGLE'')
      = Inr \<lparr>value = Name ''valueOf'', context = (), nextEvents = []\<rparr>"
proof -
  have present:
    "configured_transition (lone_config tg (Some g)) (value inactive_state) ''TOGGLE''
       = Own (Object tg (Some g))" for tg g
    by (simp add: configured_transition_def lone_config_def inactive_state_def
          value_key_def)
  have target: "states (lone_config tg (Some g)) ''active'' = None"
    "states (lone_config tg (Some g)) ''valueOf'' = None" for tg g
    by (simp_all add: lone_config_def)
  have names: "''active'' \<notin> set object_prototype_names"
    "''valueOf'' \<in> set object_prototype_names"
    by (simp_all add: object_prototype_names_def)
  show ?thesis
    using present target reducer_denied_before_target_lookup [OF present]
    by (simp add: dangling_config_def names inactive_state_def)
qed

section \<open>Construction\<close>

text \<open>
  C7, as amended. When the initial state name is not a key of \<open>config.states\<close> and does
  not name a property of \<open>Object.prototype\<close>, building the initial snapshot throws on
  the lookup of \<open>config.states[config.initial].on\<close>: no initial snapshot is produced.
\<close>

theorem initialState_unconfigured_initial:
  assumes "states config (initial config) = None"
      and "initial config \<notin> set object_prototype_names"
  shows "initialState ctx config = Inl TypeError"
  using assms by (simp add: initialState_def get_property_None)

theorem initialState_unconfigured_initial_witness:
  "states (initial_config ''idle'') (initial (initial_config ''idle'')) = None
   \<and> initial (initial_config ''idle'') \<notin> set object_prototype_names
   \<and> initialState (None :: (string \<rightharpoonup> nat) option) (initial_config ''idle'')
       = Inl TypeError"
proof -
  have absent: "states (initial_config ''idle'') (initial (initial_config ''idle'')) = None"
    by (simp add: initial_config_def)
  have name: "initial (initial_config ''idle'') \<notin> set object_prototype_names"
    by (simp add: initial_config_def object_prototype_names_def)
  show ?thesis
    using absent name initialState_unconfigured_initial [OF absent name] by simp
qed

text \<open>
  C7 as stated fails for an initial state name that is not a key of \<open>config.states\<close>
  but names a property of \<open>Object.prototype\<close>: line 114 finds the inherited function,
  which has no \<open>on\<close>, and the initial snapshot is built with that name as its value and
  no events.
\<close>

theorem initialState_unconfigured_initial_counterexample:
  "states (initial_config ''toString'') (initial (initial_config ''toString'')) = None
   \<and> initialState None (initial_config ''toString'')
       = Inr \<lparr>value = Name ''toString'', context = (Map.empty :: string \<rightharpoonup> nat),
              nextEvents = []\<rparr>"
  by (simp add: initialState_def initial_config_def get_property_def
        object_prototype_names_def)

lemma dispatch_all_events_context:
  "dispatch_all config s (map Event es) = Inr s' \<Longrightarrow> context s' = context s"
proof (induction es arbitrary: s)
  case Nil
  then show ?case by simp
next
  case (Cons e es)
  from Cons.prems obtain s1 where step: "reducer config s (Event e) = Inr s1"
    and rest: "dispatch_all config s1 (map Event es) = Inr s'"
    by (auto split: sum.splits)
  from step have "context s1 = context s"
    by (auto simp: reducer_Event split: property.splits if_splits)
  with Cons.IH [OF rest] show ?case by simp
qed

text \<open>
  C10. When the hook is set up without an initial context, the context of the initial
  snapshot is the empty record, and it still is after any sequence of events; the first
  context updater is therefore applied to the empty record.
\<close>

theorem initialState_default_context:
  assumes init: "initialState None config = Inr s0"
      and run: "dispatch_all config s0 (map Event es) = Inr s"
  shows "context s0 = Map.empty
       \<and> reducer config s (ContextUpdate upd) = Inr (s\<lparr>context := upd Map.empty\<rparr>)"
proof -
  from init have c0: "context s0 = Map.empty"
    by (auto simp: initialState_def split: property.splits)
  with dispatch_all_events_context [OF run] have "context s = Map.empty"
    by simp
  with c0 show ?thesis
    by (simp add: reducer_def Let_def)
qed

theorem initialState_default_context_witness:
  "initialState None toggle_config
     = Inr \<lparr>value = Name ''inactive'', context = (Map.empty :: string \<rightharpoonup> nat),
            nextEvents = [''TOGGLE'']\<rparr>
   \<and> dispatch_all toggle_config
        \<lparr>value = Name ''inactive'', context = (Map.empty :: string \<rightharpoonup> nat),
         nextEvents = [''TOGGLE'']\<rparr>
        (map Event [''TOGGLE''])
     = Inr \<lparr>value = Name ''active'', context = Map.empty, nextEvents = [''TOGGLE'']\<rparr>
   \<and> reducer toggle_config
        \<lparr>value = Name ''active'', context = (Map.empty :: string \<rightharpoonup> nat),
         nextEvents = [''TOGGLE'']\<rparr>
        (ContextUpdate (\<lambda>c. c(''count'' \<mapsto> 1)))
     = Inr \<lparr>value = Name ''active'', context = [''count'' \<mapsto> 1],
            nextEvents = [''TOGGLE'']\<rparr>"
proof -
  let ?start = "\<lparr>value = Name ''inactive'', context = (Map.empty :: string \<rightharpoonup> nat),
                 nextEvents = [''TOGGLE'']\<rparr>"
  let ?final = "\<lparr>value = Name ''active'', context = (Map.empty :: string \<rightharpoonup> nat),
                 nextEvents = [''TOGGLE'']\<rparr>"
  have init: "initialState None toggle_config = Inr ?start"
    by (simp add: initialState_def toggle_config_def)
  have run: "dispatch_all toggle_config ?start (map Event [''TOGGLE'']) = Inr ?final"
    by (simp add: reducer_Event configured_transition_def toggle_config_def value_key_def
          truthy_def nextStateValue_def)
  show ?thesis
    using init run
      initialState_default_context [OF init run, of "\<lambda>c. c(''count'' \<mapsto> 1)"]
    by simp
qed

section \<open>The empty state name\<close>

text \<open>
  C9. When the transition configured for the event is the shorthand for the state named
  by the empty string, the reducer returns the snapshot unchanged, as for an event
  without a transition: the empty string is falsy, and the machine does not move to the
  state of that name through the shorthand form.
\<close>

theorem reducer_empty_shorthand:
  assumes "configured_transition config (value state) e = Own (Shorthand [])"
  shows "reducer config state (Event e) = Inr state"
  using assms by (rule reducer_falsy)

theorem reducer_empty_shorthand_witness:
  "configured_transition empty_name_config (value inactive_state) ''TOGGLE''
     = Own (Shorthand [])
   \<and> states empty_name_config [] \<noteq> None
   \<and> reducer empty_name_config inactive_state (Event ''TOGGLE'') = Inr inactive_state"
proof -
  have present: "configured_transition empty_name_config (value inactive_state) ''TOGGLE''
                   = Own (Shorthand [])"
    by (simp add: configured_transition_def empty_name_config_def inactive_state_def
          value_key_def)
  show ?thesis
    using present reducer_empty_shorthand [OF present]
    by (simp add: empty_name_config_def)
qed

section \<open>Effects and value changes\<close>

lemma effect_callback_own:
  "effect_callback config v
     = (case Option.bind (states config (value_key v)) effect of
          None \<Rightarrow> ([], None)
        | Some eff \<Rightarrow>
            ([EffectCall v [Update]],
             (case eff Update of None \<Rightarrow> None | Some exit \<Rightarrow> Some (Bind exit [Update]))))"
  by (simp add: effect_callback_def get_property_def split: option.splits)

lemma useEffect_mount_hook:
  "snd (useEffect_mount config s0)
     = \<lparr>deps = [value s0], cleanup = snd (effect_callback config (value s0))\<rparr>"
  by (simp add: useEffect_mount_def split: prod.splits)

lemma useEffect_update_hook:
  assumes "hook = \<lparr>deps = [value prev], cleanup = snd (effect_callback config (value prev))\<rparr>"
  shows "snd (useEffect_update config hook s)
     = \<lparr>deps = [value s], cleanup = snd (effect_callback config (value s))\<rparr>"
  using assms by (auto simp: useEffect_update_def split: prod.splits)

lemma useEffect_all_Cons:
  "snd (useEffect_all config hook (s # ss))
     = snd (useEffect_all config (snd (useEffect_update config hook s)) ss)"
  by (simp add: split_def Let_def)

lemma useEffect_all_hook:
  assumes "hook = \<lparr>deps = [value prev], cleanup = snd (effect_callback config (value prev))\<rparr>"
  shows "snd (useEffect_all config hook ss)
     = \<lparr>deps = [value (last (prev # ss))],
        cleanup = snd (effect_callback config (value (last (prev # ss))))\<rparr>"
  using assms
proof (induction ss arbitrary: hook prev)
  case Nil
  then show ?case by simp
next
  case (Cons s ss)
  have "snd (useEffect_all config (snd (useEffect_update config hook s)) ss)
          = \<lparr>deps = [value (last (s # ss))],
             cleanup = snd (effect_callback config (value (last (s # ss))))\<rparr>"
    by (rule Cons.IH) (rule useEffect_update_hook [OF Cons.prems])
  moreover have "last (prev # s # ss) = last (s # ss)"
    by simp
  ultimately show ?case
    by (simp only: useEffect_all_Cons)
qed

text \<open>
  C8. Effects are invoked on changes of the state value only. At initialization the entry
  effect of the initial state, if it has one, is invoked once, with the updater. After
  any sequence of snapshots, a snapshot whose value differs from the previous
  snapshot's value first invokes the exit function that the previous state's entry effect
  returned, if any, with the updater, and then the entry effect of the new state, if
  any, with the updater; a snapshot with the same value invokes nothing and leaves the
  hook as it was.
\<close>

theorem effects_follow_value_changes:
  assumes hook: "hook = snd (useEffect_all config (snd (useEffect_mount config s0)) ss)"
      and prev: "prev = last (s0 # ss)"
  shows "fst (useEffect_mount config s0)
           = (case Option.bind (states config (value_key (value s0))) effect of
                None \<Rightarrow> [] | Some eff \<Rightarrow> [EffectCall (value s0) [Update]])
       \<and> (value s \<noteq> value prev \<longrightarrow>
            fst (useEffect_update config hook s)
              = (case Option.bind (states config (value_key (value prev))) effect of
                   None \<Rightarrow> []
                 | Some eff \<Rightarrow>
                     (case eff Update of None \<Rightarrow> [] | Some exit \<Rightarrow> [ExitCall exit [Update]]))
                @ (case Option.bind (states config (value_key (value s))) effect of
                     None \<Rightarrow> [] | Some eff \<Rightarrow> [EffectCall (value s) [Update]]))
       \<and> (value s = value prev \<longrightarrow> useEffect_update config hook s = ([], hook))"
proof -
  have h: "hook = \<lparr>deps = [value prev], cleanup = snd (effect_callback config (value prev))\<rparr>"
    unfolding hook prev
    by (rule useEffect_all_hook) (rule useEffect_mount_hook)
  have mount: "fst (useEffect_mount config s0)
           = (case Option.bind (states config (value_key (value s0))) effect of
                None \<Rightarrow> [] | Some eff \<Rightarrow> [EffectCall (value s0) [Update]])"
    by (simp add: useEffect_mount_def effect_callback_own split: option.splits)
  have same: "value s = value prev \<longrightarrow> useEffect_update config hook s = ([], hook)"
    by (simp add: useEffect_update_def h)
  have changed: "value s \<noteq> value prev \<longrightarrow>
            fst (useEffect_update config hook s)
              = (case Option.bind (states config (value_key (value prev))) effect of
                   None \<Rightarrow> []
                 | Some eff \<Rightarrow>
                     (case eff Update of None \<Rightarrow> [] | Some exit \<Rightarrow> [ExitCall exit [Update]]))
                @ (case Option.bind (states config (value_key (value s))) effect of
                     None \<Rightarrow> [] | Some eff \<Rightarrow> [EffectCall (value s) [Update]])"
    by (simp add: useEffect_update_def h effect_callback_own call_cleanup_def
          split: option.splits)
  from mount changed same show ?thesis by blast
qed

lemma effect_config_states [simp]:
  "states effect_config ''A''
     = Some \<lparr>on = Some [(''GO'', Shorthand ''B'')], effect = Some (\<lambda>u. Some ''exit A'')\<rparr>"
  "states effect_config ''B''
     = Some \<lparr>on = Some [(''GO'', Shorthand ''A'')], effect = Some (\<lambda>u. Some ''exit B'')\<rparr>"
  by (simp_all add: effect_config_def)

text \<open>
  States \<open>A\<close> and \<open>B\<close> with effects: mounting in \<open>A\<close> invokes the effect of \<open>A\<close>; a
  context-only snapshot invokes nothing; going to \<open>B\<close> invokes the exit of \<open>A\<close> and
  then the effect of \<open>B\<close>; going back invokes the exit of \<open>B\<close> and then the effect of
  \<open>A\<close>.
\<close>

theorem effects_follow_value_changes_witness:
  "useEffect_mount effect_config (snapshot ''A'' 0)
     = ([EffectCall (Name ''A'') [Update]],
        \<lparr>deps = [Name ''A''], cleanup = Some (Bind ''exit A'' [Update])\<rparr>)
   \<and> useEffect_all effect_config
        \<lparr>deps = [Name ''A''], cleanup = Some (Bind ''exit A'' [Update])\<rparr>
        [snapshot ''A'' 1, snapshot ''B'' 1]
     = ([ExitCall ''exit A'' [Update], EffectCall (Name ''B'') [Update]],
        \<lparr>deps = [Name ''B''], cleanup = Some (Bind ''exit B'' [Update])\<rparr>)
   \<and> fst (useEffect_update effect_config
        \<lparr>deps = [Name ''B''], cleanup = Some (Bind ''exit B'' [Update])\<rparr> (snapshot ''A'' 1))
     = [ExitCall ''exit B'' [Update], EffectCall (Name ''A'') [Update]]
   \<and> useEffect_update effect_config
        \<lparr>deps = [Name ''B''], cleanup = Some (Bind ''exit B'' [Update])\<rparr> (snapshot ''B'' 2)
     = ([], \<lparr>deps = [Name ''B''], cleanup = Some (Bind ''exit B'' [Update])\<rparr>)"
proof -
  let ?mounted = "\<lparr>deps = [Name ''A''], cleanup = Some (Bind ''exit A'' [Update])\<rparr>"
  let ?inB = "\<lparr>deps = [Name ''B''], cleanup = Some (Bind ''exit B'' [Update])\<rparr>"
  have mount: "useEffect_mount effect_config (snapshot ''A'' 0)
                 = ([EffectCall (Name ''A'') [Update]], ?mounted)"
    by (simp add: useEffect_mount_def effect_callback_own snapshot_def value_key_def)
  have run: "useEffect_all effect_config ?mounted [snapshot ''A'' 1, snapshot ''B'' 1]
               = ([ExitCall ''exit A'' [Update], EffectCall (Name ''B'') [Update]], ?inB)"
    by (simp add: useEffect_update_def effect_callback_own call_cleanup_def snapshot_def
          value_key_def)
  have hook: "?inB = snd (useEffect_all effect_config
                (snd (useEffect_mount effect_config (snapshot ''A'' 0)))
                [snapshot ''A'' 1, snapshot ''B'' 1])"
    by (simp only: mount run snd_conv)
  have prev: "snapshot ''B'' 1 = last [snapshot ''A'' 0, snapshot ''A'' 1, snapshot ''B'' 1]"
    by simp
  from mount run
    effects_follow_value_changes [OF hook prev, of "snapshot ''A'' 1"]
    effects_follow_value_changes [OF hook prev, of "snapshot ''B'' 2"]
  show ?thesis
    by (simp add: snapshot_def value_key_def)
qed

end
